theory Spec2Isabelle
  imports Main
begin

section \<open>Identifier generation (utils.ts)\<close>

text \<open>
  \<^verbatim>\<open>export const ALLOWED_CHARS = "0123456789abcdefghijklmnopqrstuvwxyzABCDEFGHIJKLMNOPQRSTUVWXYZ";\<close>
\<close>

definition ALLOWED_CHARS :: string where
  "ALLOWED_CHARS = ''0123456789abcdefghijklmnopqrstuvwxyzABCDEFGHIJKLMNOPQRSTUVWXYZ''"

text \<open>
  \<^verbatim>\<open>String.prototype.charAt\<close>: the one-character string at an index, and the empty
  string when the index is out of range.
\<close>

definition charAt :: "string \<Rightarrow> nat \<Rightarrow> string" where
  "charAt s i = (if i < length s then [s ! i] else [])"

text \<open>
  The source of randomness. \<open>source g n\<close> is the value that the \<open>n\<close>-th evaluation of
  \<^verbatim>\<open>Math.floor(Math.random() * ALLOWED_CHARS.length)\<close> yields, and \<open>calls g\<close> counts the
  evaluations made so far.
\<close>

record rng =
  source :: "nat \<Rightarrow> nat"
  calls :: nat

definition nextIndex :: "rng \<Rightarrow> nat \<times> rng" where
  "nextIndex g = (source g (calls g), g\<lparr>calls := Suc (calls g)\<rparr>)"

text \<open>
  \<^verbatim>\<open>Math.random()\<close> lies in \<open>[0, 1)\<close>, so the floored product is an index of the
  alphabet. The model does not build this in: it is a hypothesis wherever it is needed.
\<close>

definition in_range :: "rng \<Rightarrow> bool" where
  "in_range g = (\<forall>n. source g n < length ALLOWED_CHARS)"

text \<open>
  \<^verbatim>\<open>
  export function generateRandomShortId(length = 4) {
      let result = "";
      for (let i = 0; i < length; i++) {
          result += ALLOWED_CHARS.charAt(Math.floor(Math.random() * ALLOWED_CHARS.length));
      }
      return result;
  }
  \<close>
  The first argument of the loop is the number of iterations left, \<open>length - i\<close>.
\<close>

fun generateRandomShortId_loop :: "nat \<Rightarrow> string \<Rightarrow> rng \<Rightarrow> string \<times> rng" where
  "generateRandomShortId_loop 0 result g = (result, g)"
| "generateRandomShortId_loop (Suc n) result g =
     (case nextIndex g of (k, g') \<Rightarrow>
        generateRandomShortId_loop n (result @ charAt ALLOWED_CHARS k) g')"

definition generateRandomShortId :: "nat \<Rightarrow> rng \<Rightarrow> string \<times> rng" where
  "generateRandomShortId len g = generateRandomShortId_loop len [] g"

text \<open>
  \<^verbatim>\<open>Set.prototype.add\<close> on a \<^verbatim>\<open>Set<string>\<close>, which keeps insertion order: a
  list without duplicates, a new element going last.
\<close>

definition set_add :: "string list \<Rightarrow> string \<Rightarrow> string list" where
  "set_add ids x = (if x \<in> set ids then ids else ids @ [x])"

text \<open>
  \<^verbatim>\<open>
  export function generateUniqueShortIds(count: number, length: number): string[] {
      const ids = new Set<string>();
      let loop = 0;
      while (ids.size < count && loop < count * 100) {
          ids.add(generateRandomShortId(length));
          loop++;
      }
      return Array.from(ids);
  }
  \<close>
  The loop function also returns the final value of \<open>loop\<close>, the number of identifiers
  drawn.
\<close>

function generateUniqueShortIds_loop ::
  "nat \<Rightarrow> nat \<Rightarrow> string list \<Rightarrow> nat \<Rightarrow> rng \<Rightarrow> string list \<times> nat \<times> rng" where
  "generateUniqueShortIds_loop count len ids loop g =
     (if length ids < count \<and> loop < count * 100
      then (case generateRandomShortId len g of (s, g') \<Rightarrow>
              generateUniqueShortIds_loop count len (set_add ids s) (loop + 1) g')
      else (ids, loop, g))"
  by pat_completeness auto
termination
  by (relation "measure (\<lambda>(count, len, ids, loop, g). count * 100 - loop)") auto

declare generateUniqueShortIds_loop.simps [simp del]

definition generateUniqueShortIds :: "nat \<Rightarrow> nat \<Rightarrow> rng \<Rightarrow> string list \<times> rng" where
  "generateUniqueShortIds count len g =
     (case generateUniqueShortIds_loop count len [] 0 g of (ids, loop, g') \<Rightarrow> (ids, g'))"


section \<open>The backend and the caches\<close>

text \<open>
  \<^verbatim>\<open>throw new Error(message)\<close>: an error is its message.
\<close>

datatype error = Error string

text \<open>
  The backend is the store the tests of the manager run against (\<^verbatim>\<open>dummyBackend\<close>):
  \<^verbatim>\<open>Map<string, { targetUrl: string; lastAccessedAt: Date }>\<close>. The D1 backend keeps
  the same data in the table \<^verbatim>\<open>sl_links_map\<close>, whose primary key is the short id.
  A \<^verbatim>\<open>Date\<close> is a number of clock ticks.
\<close>

record link =
  targetUrl :: string
  lastAccessedAt :: nat

text \<open>
  Modelled from the spec: \<^verbatim>\<open>src/cache.ts\<close> (the interface \<^verbatim>\<open>ICache\<close>) is not among the
  source files. A cache tier offers \<^verbatim>\<open>init()\<close> (optional), \<^verbatim>\<open>get(shortId) -> string | absent\<close>
  and \<^verbatim>\<open>set(shortId, targetUrl) -> void\<close>; a tier is the map of the entries it holds, and
  \<open>get\<close> returns what the tier holds. (The \<^verbatim>\<open>InMemoryCache\<close> of the tests is one
  implementation; its \<open>get\<close> turns an empty string into \<^verbatim>\<open>null\<close> by itself.)
\<close>

type_synonym cache = "string \<rightharpoonup> string"

text \<open>
  The calls that the manager makes on its collaborators, in the order it makes them. A
  cache tier is named by its position in the list of caches.
\<close>

datatype event =
    CacheInit nat
  | CacheGet nat string
  | CacheSet nat string string
  | BackendGetTargetUrl string
  | BackendCreateShortLink string string
  | BackendCheckShortIdsExist "string list"
  | BackendUpdateShortLinkLastAccessTime string
  | OnShortIdLengthUpdated nat

text \<open>
  What a manager works on: the variables that the closure of \<^verbatim>\<open>createManager\<close> captures
  (\<open>backend\<close>, \<open>caches\<close>, \<open>shortIdLength\<close>), the random source, the clock that
  \<^verbatim>\<open>new Date()\<close> reads, and the calls made so far.
\<close>

record world =
  backend :: "string \<rightharpoonup> link"
  caches :: "cache list"
  shortIdLength :: nat
  random :: rng
  clock :: nat
  log :: "event list"

definition emit :: "event \<Rightarrow> world \<Rightarrow> world" where
  "emit e w = w\<lparr>log := log w @ [e]\<rparr>"

text \<open>The calls made between two worlds.\<close>

definition trace :: "world \<Rightarrow> world \<Rightarrow> event list" where
  "trace w w' = drop (length (log w)) (log w')"

text \<open>
  \<^verbatim>\<open>
  getTargetUrl(shortId: string): string | null {
      const value = map.get(shortId);
      return value?.targetUrl ?? null;
  }
  \<close>
\<close>

definition backend_getTargetUrl :: "string \<Rightarrow> world \<Rightarrow> string option \<times> world" where
  "backend_getTargetUrl shortId w =
     (map_option targetUrl (backend w shortId), emit (BackendGetTargetUrl shortId) w)"

text \<open>
  \<^verbatim>\<open>
  createShortLink(shortId: string, targetUrl: string): void {
      if (map.has(shortId)) {
          throw new Error("short id not found");
      }
      map.set(shortId, { targetUrl, lastAccessedAt: new Date() });
  }
  \<close>
\<close>

definition backend_createShortLink :: "string \<Rightarrow> string \<Rightarrow> world \<Rightarrow> (error + unit) \<times> world" where
  "backend_createShortLink shortId url w =
     (let w1 = emit (BackendCreateShortLink shortId url) w in
      if backend w1 shortId \<noteq> None then (Inl (Error ''short id not found''), w1)
      else (Inr (),
            w1\<lparr>backend := (backend w1)(shortId \<mapsto> \<lparr>targetUrl = url, lastAccessedAt = clock w1\<rparr>)\<rparr>))"

text \<open>
  \<^verbatim>\<open>
  checkShortIdsExist(shortIds: string[]): string[] {
      return shortIds.filter(id => map.has(id));
  }
  \<close>
\<close>

definition backend_checkShortIdsExist :: "string list \<Rightarrow> world \<Rightarrow> string list \<times> world" where
  "backend_checkShortIdsExist shortIds w =
     (filter (\<lambda>id. backend w id \<noteq> None) shortIds, emit (BackendCheckShortIdsExist shortIds) w)"

text \<open>
  \<^verbatim>\<open>
  updateShortLinkLastAccessTime(shortId: string): void {
      const value = map.get(shortId);
      if (value) {
          value.lastAccessedAt = new Date();
      }
  }
  \<close>
\<close>

definition backend_updateShortLinkLastAccessTime :: "string \<Rightarrow> world \<Rightarrow> world" where
  "backend_updateShortLinkLastAccessTime shortId w =
     (let w1 = emit (BackendUpdateShortLinkLastAccessTime shortId) w in
      case backend w1 shortId of
        None \<Rightarrow> w1
      | Some v \<Rightarrow> w1\<lparr>backend := (backend w1)(shortId \<mapsto> v\<lparr>lastAccessedAt := clock w1\<rparr>)\<rparr>)"

section \<open>The manager (packages/shortlinks-manager/src/manager.ts)\<close>

text \<open>
  \<^verbatim>\<open>!v\<close> for a value of type \<^verbatim>\<open>string | null\<close> or \<^verbatim>\<open>string | undefined\<close>: true of
  the absent value and of the empty string.
\<close>

definition falsy :: "string option \<Rightarrow> bool" where
  "falsy v = (case v of None \<Rightarrow> True | Some s \<Rightarrow> s = [])"

text \<open>
  \<^verbatim>\<open>await onShortIdLengthUpdated(shortIdLength)\<close>: the callback belongs to the caller; the
  model records the call.
\<close>

definition onShortIdLengthUpdated :: "nat \<Rightarrow> world \<Rightarrow> world" where
  "onShortIdLengthUpdated newLength w = emit (OnShortIdLengthUpdated newLength) w"

text \<open>
  One attempt, lines 94 to 96 of the loop body:
  \<^verbatim>\<open>
  const listToTest = generateUniqueShortIds(50, shortIdLength);
  const existed = await backend.checkShortIdsExist(listToTest);
  const uniqueShortId = listToTest.find(id => !existed.includes(id));
  \<close>
\<close>

definition attempt :: "world \<Rightarrow> string option \<times> world" where
  "attempt w =
     (case generateUniqueShortIds 50 (shortIdLength w) (random w) of (listToTest, g) \<Rightarrow>
      case backend_checkShortIdsExist listToTest (w\<lparr>random := g\<rparr>) of (existed, w1) \<Rightarrow>
        (find (\<lambda>id. id \<notin> set existed) listToTest, w1))"

text \<open>
  Lines 99 and 100:
  \<^verbatim>\<open>
  ++shortIdLength;
  await onShortIdLengthUpdated(shortIdLength);
  \<close>
\<close>

definition escalate :: "world \<Rightarrow> world" where
  "escalate w =
     (let w1 = w\<lparr>shortIdLength := shortIdLength w + 1\<rparr> in
      onShortIdLengthUpdated (shortIdLength w1) w1)"

text \<open>
  \<^verbatim>\<open>
  let shortId = "";
  for (let i = 0; i < 3; i++) {
      ...
      if (!uniqueShortId) {
          ++shortIdLength;
          await onShortIdLengthUpdated(shortIdLength);
      }
      else {
          shortId = uniqueShortId;
          break;
      }
  }
  \<close>
  The first argument is the number of iterations left, \<open>3 - i\<close>.
\<close>

fun createShortLink_loop :: "nat \<Rightarrow> world \<Rightarrow> string \<times> world" where
  "createShortLink_loop 0 w = ([], w)"
| "createShortLink_loop (Suc n) w =
     (case attempt w of (uniqueShortId, w1) \<Rightarrow>
        if falsy uniqueShortId then createShortLink_loop n (escalate w1)
        else (case uniqueShortId of Some s \<Rightarrow> (s, w1) | None \<Rightarrow> ([], w1)))"

text \<open>
  \<^verbatim>\<open>
  if (!shortId) {
      throw new Error("Unable to create a shortlink, potentially ran out");
  }
  await backend.createShortLink(shortId, targetUrl);
  return shortId;
  \<close>
\<close>

definition ExhaustionError :: error where
  "ExhaustionError = Error ''Unable to create a shortlink, potentially ran out''"

definition createShortLink :: "string \<Rightarrow> world \<Rightarrow> (error + string) \<times> world" where
  "createShortLink url w =
     (case createShortLink_loop 3 w of (shortId, w1) \<Rightarrow>
        if shortId = [] then (Inl ExhaustionError, w1)
        else (case backend_createShortLink shortId url w1 of
                (Inl e, w2) \<Rightarrow> (Inl e, w2)
              | (Inr u, w2) \<Rightarrow> (Inr shortId, w2)))"

text \<open>
  \<^verbatim>\<open>
  let targetUrl: string | null = null;
  for (const cache of caches) {
      await cache.init?.();
      if (!targetUrl) {
          targetUrl = await cache.get(shortId);
      }
  }
  \<close>
  The loop runs over the tiers from position \<open>i\<close> on.
\<close>

fun getTargetUrl_caches :: "string \<Rightarrow> nat \<Rightarrow> cache list \<Rightarrow> string option \<times> world \<Rightarrow> string option \<times> world" where
  "getTargetUrl_caches shortId i [] (url, w) = (url, w)"
| "getTargetUrl_caches shortId i (cache # rest) (url, w) =
     (let w1 = emit (CacheInit i) w in
      if falsy url
      then getTargetUrl_caches shortId (Suc i) rest (cache shortId, emit (CacheGet i shortId) w1)
      else getTargetUrl_caches shortId (Suc i) rest (url, w1))"

text \<open>
  \<^verbatim>\<open>
  for (const cache of caches) {
      await cache.set(shortId, targetUrl);
  }
  \<close>
\<close>

fun set_caches :: "string \<Rightarrow> string \<Rightarrow> nat \<Rightarrow> cache list \<Rightarrow> cache list \<times> event list" where
  "set_caches shortId url i [] = ([], [])"
| "set_caches shortId url i (cache # rest) =
     (case set_caches shortId url (Suc i) rest of (rest', evs) \<Rightarrow>
        (cache(shortId \<mapsto> url) # rest', CacheSet i shortId url # evs))"

definition setTargetUrl_caches :: "string \<Rightarrow> string \<Rightarrow> world \<Rightarrow> world" where
  "setTargetUrl_caches shortId url w =
     (case set_caches shortId url 0 (caches w) of (cs, evs) \<Rightarrow>
        w\<lparr>caches := cs, log := log w @ evs\<rparr>)"

text \<open>
  \<^verbatim>\<open>
  async getTargetUrl(shortId) {
      ... the loop over the caches ...
      if (!targetUrl) {
          targetUrl = await backend.getTargetUrl(shortId);
      }
      if (targetUrl) {
          await backend.updateShortLinkLastAccessTime(shortId);
          for (const cache of caches) {
              await cache.set(shortId, targetUrl);
          }
      }
      return targetUrl;
  }
  \<close>
\<close>

definition getTargetUrl :: "string \<Rightarrow> world \<Rightarrow> string option \<times> world" where
  "getTargetUrl shortId w =
     (case getTargetUrl_caches shortId 0 (caches w) (None, w) of (url1, w1) \<Rightarrow>
      case (if falsy url1 then backend_getTargetUrl shortId w1 else (url1, w1)) of (url2, w2) \<Rightarrow>
        if falsy url2 then (url2, w2)
        else (case url2 of
                Some u \<Rightarrow>
                  (url2, setTargetUrl_caches shortId u (backend_updateShortLinkLastAccessTime shortId w2))
              | None \<Rightarrow> (url2, w2)))"

text \<open>
  \<^verbatim>\<open>
  async updateShortLinkLastAccessTime(shortId) {
      return await backend.updateShortLinkLastAccessTime(shortId);
  }
  \<close>
  The interface \<^verbatim>\<open>IShortLinksManager\<close> declares the method with a second parameter,
  \<^verbatim>\<open>time: Date\<close>; a caller's second argument is the parameter \<open>time\<close> here.
\<close>

definition updateShortLinkLastAccessTime :: "string \<Rightarrow> nat \<Rightarrow> world \<Rightarrow> unit \<times> world" where
  "updateShortLinkLastAccessTime shortId time w =
     ((), backend_updateShortLinkLastAccessTime shortId w)"

text \<open>
  \<^verbatim>\<open>
  interface IManagerProps {
      backend: IShortLinksManagerBackend;
      caches?: ICache[];
      shortIdLength: number;
      onShortIdLengthUpdated: (newLength: number) => unknown;
  }
  export async function createManager(
      { backend, caches = [], shortIdLength, onShortIdLengthUpdated }: IManagerProps) {
      await backend.init?.();
      return { ... };
  }
  \<close>
  The argument is an object: it may carry properties that the parameter's pattern does
  not name, and the pattern drops them. The record is extensible for that reason, and
  \<open>createManager\<close> takes any extension of it. \<^verbatim>\<open>dummyBackend\<close> has no \<^verbatim>\<open>init\<close>, and
  that of the D1 backend is empty. The callback is modelled by \<open>onShortIdLengthUpdated\<close>
  above. The random source and the clock are the environment's.
\<close>

record IManagerProps =
  props_backend :: "string \<rightharpoonup> link"
  props_caches :: "cache list option"
  props_shortIdLength :: nat

definition createManager :: "'a IManagerProps_scheme \<Rightarrow> rng \<Rightarrow> nat \<Rightarrow> world" where
  "createManager props g now =
     \<lparr>backend = props_backend props,
      caches = (case props_caches props of None \<Rightarrow> [] | Some cs \<Rightarrow> cs),
      shortIdLength = props_shortIdLength props,
      random = g, clock = now, log = []\<rparr>"

text \<open>
  The argument as the tests of the option build it:
  \<^verbatim>\<open>
  createManager({ backend: dummyBackend, shortIdLength, onShortIdLengthUpdated: ...,
                  options: { shouldUpdateLastAccessOnGet: false } })
  \<close>
  An omitted \<^verbatim>\<open>shouldUpdateLastAccessOnGet\<close> is \<open>None\<close>.
\<close>

record manager_options =
  shouldUpdateLastAccessOnGet :: "bool option"

record IManagerPropsWithOptions = IManagerProps +
  options :: manager_options


section \<open>Notions that the properties are stated with\<close>

text \<open>The calls that ask the tier at position \<open>j\<close> for a short id.\<close>

definition asked :: "string \<Rightarrow> nat \<Rightarrow> event list" where
  "asked shortId j = [CacheInit j, CacheGet j shortId]"

text \<open>The values that the length callback was called with, in the order of the calls.\<close>

fun length_updates :: "event list \<Rightarrow> nat list" where
  "length_updates [] = []"
| "length_updates (OnShortIdLengthUpdated n # evs) = n # length_updates evs"
| "length_updates (e # evs) = length_updates evs"

text \<open>The candidates that an attempt in a world generates (\<open>listToTest\<close>).\<close>

definition candidates :: "world \<Rightarrow> string list" where
  "candidates w = fst (generateUniqueShortIds 50 (shortIdLength w) (random w))"

text \<open>The world in which the next attempt runs, when the attempt in \<open>w\<close> found nothing.\<close>

definition retry :: "world \<Rightarrow> world" where
  "retry w = escalate (snd (attempt w))"

text \<open>
  A random source for the examples: the \<open>n\<close>-th index drawn is \<open>n mod 61\<close>, so the draws
  run through the first 61 characters of the alphabet again and again.
\<close>

definition rng0 :: rng where
  "rng0 = \<lparr>source = \<lambda>n. n mod 61, calls = 0\<rparr>"

text \<open>
  A world for the examples: the first of two cache tiers holds the empty string for the
  short id \<open>aa0\<close>, the second holds nothing, and the backend holds a link for it.
\<close>

definition world_empty_string :: world where
  "world_empty_string =
     \<lparr>backend = [''aa0'' \<mapsto> \<lparr>targetUrl = ''https://poto.nz'', lastAccessedAt = 0\<rparr>],
      caches = [[''aa0'' \<mapsto> ''''], Map.empty],
      shortIdLength = 3, random = rng0, clock = 7, log = []\<rparr>"

section \<open>Properties of the identifier generation\<close>

lemma length_ALLOWED_CHARS: "length ALLOWED_CHARS = 62"
  by (simp add: ALLOWED_CHARS_def)

lemma distinct_ALLOWED_CHARS: "distinct ALLOWED_CHARS"
  by (simp add: ALLOWED_CHARS_def)

lemma charAt_in_range:
  "k < length ALLOWED_CHARS \<Longrightarrow> \<exists>c. charAt ALLOWED_CHARS k = [c] \<and> c \<in> set ALLOWED_CHARS"
  by (simp add: charAt_def)

lemma generateRandomShortId_loop_rng:
  "generateRandomShortId_loop n r g = (s, g') \<Longrightarrow> source g' = source g \<and> calls g' = calls g + n"
  by (induction n arbitrary: r g) (auto simp: nextIndex_def)

lemma generateRandomShortId_loop_chars:
  "in_range g \<Longrightarrow> generateRandomShortId_loop n r g = (s, g') \<Longrightarrow>
     \<exists>t. s = r @ t \<and> length t = n \<and> set t \<subseteq> set ALLOWED_CHARS"
proof (induction n arbitrary: r g)
  case 0
  then show ?case by simp
next
  case (Suc n)
  let ?k = "source g (calls g)"
  let ?g1 = "g\<lparr>calls := Suc (calls g)\<rparr>"
  from Suc.prems(1) have k: "?k < length ALLOWED_CHARS" and g1: "in_range ?g1"
    by (simp_all add: in_range_def)
  from charAt_in_range [OF k] obtain c where c: "charAt ALLOWED_CHARS ?k = [c]" "c \<in> set ALLOWED_CHARS"
    by blast
  from Suc.prems(2) have "generateRandomShortId_loop n (r @ [c]) ?g1 = (s, g')"
    by (simp add: nextIndex_def c)
  from Suc.IH [OF g1 this] obtain t where "s = (r @ [c]) @ t" "length t = n" "set t \<subseteq> set ALLOWED_CHARS"
    by blast
  with c(2) have "s = r @ (c # t) \<and> length (c # t) = Suc n \<and> set (c # t) \<subseteq> set ALLOWED_CHARS"
    by simp
  then show ?case by blast
qed

lemma generateRandomShortId_chars:
  "in_range g \<Longrightarrow> generateRandomShortId len g = (s, g') \<Longrightarrow> length s = len \<and> set s \<subseteq> set ALLOWED_CHARS"
  using generateRandomShortId_loop_chars [of g len "[]" s g'] by (auto simp: generateRandomShortId_def)

lemma generateRandomShortId_rng:
  "generateRandomShortId len g = (s, g') \<Longrightarrow> source g' = source g \<and> calls g' = calls g + len"
  using generateRandomShortId_loop_rng [of len "[]" g s g'] by (simp add: generateRandomShortId_def)

lemma in_range_cong: "source g' = source g \<Longrightarrow> in_range g' = in_range g"
  by (simp add: in_range_def)

lemma distinct_set_add: "distinct ids \<Longrightarrow> distinct (set_add ids x)"
  by (simp add: set_add_def)

lemma length_set_add: "length (set_add ids x) \<le> Suc (length ids)"
  by (simp add: set_add_def)

lemma set_set_add: "set (set_add ids x) = insert x (set ids)"
  by (auto simp: set_add_def)

lemma generateUniqueShortIds_loop_inv:
  "generateUniqueShortIds_loop count len ids loop g = (ids', loop', g') \<Longrightarrow>
   distinct ids \<Longrightarrow> length ids \<le> count \<Longrightarrow> loop \<le> count * 100 \<Longrightarrow>
     distinct ids' \<and> length ids' \<le> count \<and> loop \<le> loop' \<and> loop' \<le> count * 100 \<and>
     source g' = source g \<and> calls g' + loop * len = calls g + loop' * len"
proof (induction count len ids loop g rule: generateUniqueShortIds_loop.induct)
  case (1 count len ids loop g)
  show ?case
  proof (cases "length ids < count \<and> loop < count * 100")
    case False
    with "1.prems" show ?thesis
      by (simp add: generateUniqueShortIds_loop.simps [of count len ids loop g])
  next
    case True
    obtain s g1 where gen: "generateRandomShortId len g = (s, g1)"
      by (cases "generateRandomShortId len g")
    from True gen "1.prems"(1)
    have rec: "generateUniqueShortIds_loop count len (set_add ids s) (loop + 1) g1 = (ids', loop', g')"
      by (simp add: generateUniqueShortIds_loop.simps [of count len ids loop g])
    have a: "distinct (set_add ids s)" using "1.prems"(2) by (rule distinct_set_add)
    have b: "length (set_add ids s) \<le> count" using True length_set_add [of ids s] by simp
    have c: "loop + 1 \<le> count * 100" using True by simp
    from "1.IH" [OF True gen [symmetric] rec a b c] generateRandomShortId_rng [OF gen]
    show ?thesis by (auto simp: algebra_simps)
  qed
qed

lemma generateUniqueShortIds_loop_chars:
  "generateUniqueShortIds_loop count len ids loop g = (ids', loop', g') \<Longrightarrow> in_range g \<Longrightarrow>
   \<forall>s\<in>set ids. length s = len \<and> set s \<subseteq> set ALLOWED_CHARS \<Longrightarrow>
   \<forall>s\<in>set ids'. length s = len \<and> set s \<subseteq> set ALLOWED_CHARS"
proof (induction count len ids loop g rule: generateUniqueShortIds_loop.induct)
  case (1 count len ids loop g)
  show ?case
  proof (cases "length ids < count \<and> loop < count * 100")
    case False
    with "1.prems" show ?thesis
      by (simp add: generateUniqueShortIds_loop.simps [of count len ids loop g])
  next
    case True
    obtain s g1 where gen: "generateRandomShortId len g = (s, g1)"
      by (cases "generateRandomShortId len g")
    from True gen "1.prems"(1)
    have rec: "generateUniqueShortIds_loop count len (set_add ids s) (loop + 1) g1 = (ids', loop', g')"
      by (simp add: generateUniqueShortIds_loop.simps [of count len ids loop g])
    have r1: "in_range g1"
      using generateRandomShortId_rng [OF gen] "1.prems"(2) by (simp add: in_range_def)
    have "\<forall>t\<in>set (set_add ids s). length t = len \<and> set t \<subseteq> set ALLOWED_CHARS"
      using generateRandomShortId_chars [OF "1.prems"(2) gen] "1.prems"(3) by (simp add: set_set_add)
    from "1.IH" [OF True gen [symmetric] rec r1 this] show ?thesis .
  qed
qed


lemma generateRandomShortId_loop_stuck:
  "source g = (\<lambda>n. 0) \<Longrightarrow> generateRandomShortId_loop n r g = (s, g') \<Longrightarrow> s = r @ replicate n CHR ''0''"
proof (induction n arbitrary: r g)
  case 0
  then show ?case by simp
next
  case (Suc n)
  from Suc.prems have "generateRandomShortId_loop n (r @ ''0'') (g\<lparr>calls := Suc (calls g)\<rparr>) = (s, g')"
    by (simp add: nextIndex_def charAt_def ALLOWED_CHARS_def)
  from Suc.IH [OF _ this] Suc.prems(1) show ?case
    by (simp add: replicate_app_Cons_same)
qed

lemma generateUniqueShortIds_loop_stuck:
  "generateUniqueShortIds_loop count len ids loop g = (ids', loop', g') \<Longrightarrow> source g = (\<lambda>n. 0) \<Longrightarrow>
   set ids \<subseteq> {replicate len CHR ''0''} \<Longrightarrow> set ids' \<subseteq> {replicate len CHR ''0''}"
proof (induction count len ids loop g rule: generateUniqueShortIds_loop.induct)
  case (1 count len ids loop g)
  show ?case
  proof (cases "length ids < count \<and> loop < count * 100")
    case False
    with "1.prems" show ?thesis
      by (simp add: generateUniqueShortIds_loop.simps [of count len ids loop g])
  next
    case True
    obtain s g1 where gen: "generateRandomShortId len g = (s, g1)"
      by (cases "generateRandomShortId len g")
    from True gen "1.prems"(1)
    have rec: "generateUniqueShortIds_loop count len (set_add ids s) (loop + 1) g1 = (ids', loop', g')"
      by (simp add: generateUniqueShortIds_loop.simps [of count len ids loop g])
    have g1: "source g1 = (\<lambda>n. 0)"
      using generateRandomShortId_rng [OF gen] "1.prems"(2) by simp
    have "s = replicate len CHR ''0''"
      using generateRandomShortId_loop_stuck [OF "1.prems"(2), of len "[]" s g1] gen
      by (simp add: generateRandomShortId_def)
    with "1.prems"(3) have "set (set_add ids s) \<subseteq> {replicate len CHR ''0''}"
      by (simp add: set_set_add)
    from "1.IH" [OF True gen [symmetric] rec g1 this] show ?thesis .
  qed
qed

lemma distinct_singleton_length: "distinct xs \<Longrightarrow> set xs \<subseteq> {a} \<Longrightarrow> length xs \<le> 1"
proof -
  assume d: "distinct xs" and s: "set xs \<subseteq> {a}"
  have "card (set xs) \<le> card {a}" using s by (intro card_mono) simp_all
  with d show ?thesis by (simp add: distinct_card)
qed

lemma generateUniqueShortIds_stuck:
  assumes "source g = (\<lambda>n. 0)"
  shows "length (fst (generateUniqueShortIds count len g)) \<le> 1"
proof -
  obtain ids loop g' where r: "generateUniqueShortIds_loop count len [] 0 g = (ids, loop, g')"
    by (cases "generateUniqueShortIds_loop count len [] 0 g")
  from generateUniqueShortIds_loop_inv [OF r] have "distinct ids" by simp
  moreover from generateUniqueShortIds_loop_stuck [OF r assms] have "set ids \<subseteq> {replicate len CHR ''0''}"
    by simp
  ultimately have "length ids \<le> 1" by (rule distinct_singleton_length)
  with r show ?thesis by (simp add: generateUniqueShortIds_def)
qed

text \<open>
  Claim C7. For every \<open>count\<close> and \<open>length\<close>, \<open>generateUniqueShortIds(count, length)\<close>
  returns pairwise distinct strings, each of exactly \<open>length\<close> characters of the alphabet
  of 62 characters; it returns at most \<open>count\<close> of them and draws at most \<open>count * 100\<close>
  identifiers (\<open>length\<close> evaluations of \<^verbatim>\<open>Math.random()\<close> each). It may return fewer than
  \<open>count\<close>: a source that always yields index 0 gives one identifier only. The hypothesis
  is the contract of \<^verbatim>\<open>Math.random()\<close>.
\<close>

theorem generateUniqueShortIds_distinct_bounded:
  assumes "in_range g"
  shows "case generateUniqueShortIds_loop count len [] 0 g of (ids, loop, g') \<Rightarrow>
           fst (generateUniqueShortIds count len g) = ids \<and>
           distinct ids \<and>
           (\<forall>s\<in>set ids. length s = len \<and> set s \<subseteq> set ALLOWED_CHARS) \<and>
           length ALLOWED_CHARS = 62 \<and>
           length ids \<le> count \<and>
           loop \<le> count * 100 \<and>
           calls g' = calls g + loop * len \<and>
           (2 \<le> count \<longrightarrow>
              length (fst (generateUniqueShortIds count len \<lparr>source = \<lambda>n. 0, calls = 0\<rparr>)) < count)"
proof -
  obtain ids loop g' where r: "generateUniqueShortIds_loop count len [] 0 g = (ids, loop, g')"
    by (cases "generateUniqueShortIds_loop count len [] 0 g")
  have a: "fst (generateUniqueShortIds count len g) = ids"
    using r by (simp add: generateUniqueShortIds_def)
  from generateUniqueShortIds_loop_inv [OF r]
  have b: "distinct ids" "length ids \<le> count" "loop \<le> count * 100" "calls g' = calls g + loop * len"
    by simp_all
  from generateUniqueShortIds_loop_chars [OF r assms]
  have c: "\<forall>s\<in>set ids. length s = len \<and> set s \<subseteq> set ALLOWED_CHARS" by simp
  have d: "2 \<le> count \<longrightarrow>
      length (fst (generateUniqueShortIds count len \<lparr>source = \<lambda>n. 0, calls = 0\<rparr>)) < count"
    using generateUniqueShortIds_stuck [of "\<lparr>source = \<lambda>n. 0, calls = 0\<rparr>" count len] by simp
  from a b c d length_ALLOWED_CHARS show ?thesis by (simp add: r)
qed

lemma in_range_rng0: "in_range (rng0\<lparr>calls := c\<rparr>)" "in_range rng0"
proof -
  have "n mod 61 < 62" for n :: nat
    using mod_less_divisor [of 61 n] by linarith
  then show "in_range (rng0\<lparr>calls := c\<rparr>)" "in_range rng0"
    by (simp_all add: in_range_def length_ALLOWED_CHARS rng0_def)
qed

theorem generateUniqueShortIds_distinct_bounded_witness:
  "in_range rng0 \<and>
   generateUniqueShortIds_loop 3 2 [] 0 rng0 = ([''01'', ''23'', ''45''], 3, rng0\<lparr>calls := 6\<rparr>) \<and>
   fst (generateUniqueShortIds 3 2 rng0) = [''01'', ''23'', ''45''] \<and>
   distinct [''01'', ''23'', ''45''] \<and>
   (2::nat) \<le> 3 \<and>
   length (fst (generateUniqueShortIds 3 2 \<lparr>source = \<lambda>n. 0, calls = 0\<rparr>)) < 3"
proof -
  have h: "in_range rng0" by (rule in_range_rng0)
  have e: "generateUniqueShortIds_loop 3 2 [] 0 rng0 =
      ([''01'', ''23'', ''45''], 3, rng0\<lparr>calls := 6\<rparr>)"
    by (simp add: rng0_def generateUniqueShortIds_loop.simps generateRandomShortId_def
        nextIndex_def charAt_def ALLOWED_CHARS_def set_add_def numeral_2_eq_2)
  from generateUniqueShortIds_distinct_bounded [OF h, of 3 2] h e show ?thesis by simp
qed

section \<open>The read path\<close>

lemma trace_append: "log w' = log w @ evs \<Longrightarrow> trace w w' = evs"
  by (simp add: trace_def)

lemma falsy_simps [simp]: "falsy None" "falsy (Some s) = (s = [])"
  by (simp_all add: falsy_def)

lemma upt_head: "[i..<Suc (i + n)] = i # [Suc i..<Suc (i + n)]"
  by (rule upt_conv_Cons) simp

lemma upt_head2: "[i..<Suc (Suc (i + n))] = i # Suc i # [Suc (Suc i)..<Suc (Suc (i + n))]"
  by (simp add: upt_conv_Cons del: upt_Suc)

text \<open>The loop over the caches once a value has been adopted: only \<open>init\<close> is called.\<close>

lemma getTargetUrl_caches_hit:
  "\<not> falsy url \<Longrightarrow>
   getTargetUrl_caches shortId i cs (url, w) =
     (url, w\<lparr>log := log w @ map CacheInit [i..<i + length cs]\<rparr>)"
proof (induction cs arbitrary: i w)
  case Nil
  then show ?case by simp
next
  case (Cons c cs)
  from Cons show ?case by (simp add: emit_def upt_head del: upt_Suc)
qed

text \<open>The loop over tiers that all hold nothing, or the empty string: each is asked.\<close>

lemma getTargetUrl_caches_miss:
  "falsy url \<Longrightarrow> \<forall>c\<in>set cs. falsy (c shortId) \<Longrightarrow>
   getTargetUrl_caches shortId i cs (url, w) =
     (if cs = [] then url else last cs shortId,
      w\<lparr>log := log w @ concat (map (asked shortId) [i..<i + length cs])\<rparr>)"
proof (induction cs arbitrary: i w url)
  case Nil
  then show ?case by simp
next
  case (Cons c cs)
  from Cons.prems have f: "falsy (c shortId)" and r: "\<forall>c\<in>set cs. falsy (c shortId)" by simp_all
  from Cons.IH [OF f r] Cons.prems(1) show ?case
    by (simp add: emit_def upt_head asked_def del: upt_Suc)
qed

lemma getTargetUrl_caches_first:
  assumes "falsy url" and "\<forall>c\<in>set pre. falsy (c shortId)" and "\<not> falsy (c shortId)"
  shows "getTargetUrl_caches shortId i (pre @ c # post) (url, w) =
     (c shortId,
      w\<lparr>log := log w @ concat (map (asked shortId) [i..<i + length pre + 1]) @
                 map CacheInit [i + length pre + 1..<i + length pre + 1 + length post]\<rparr>)"
  using assms
proof (induction pre arbitrary: i w url)
  case Nil
  then show ?case
    by (simp add: getTargetUrl_caches_hit emit_def asked_def)
next
  case (Cons p pre)
  from Cons.prems have f: "falsy (p shortId)" and r: "\<forall>c\<in>set pre. falsy (c shortId)" by simp_all
  from Cons.IH [OF f r Cons.prems(3)] Cons.prems(1) show ?case
    by (simp add: emit_def upt_head upt_head2 asked_def del: upt_Suc)
qed

lemma set_caches_eq:
  "set_caches shortId url i cs =
     (map (\<lambda>c. c(shortId \<mapsto> url)) cs, map (\<lambda>j. CacheSet j shortId url) [i..<i + length cs])"
proof (induction cs arbitrary: i)
  case Nil
  then show ?case by simp
next
  case (Cons c cs)
  from Cons show ?case by (simp add: upt_head fun_upd_def del: upt_Suc)
qed

lemma setTargetUrl_caches_eq:
  "setTargetUrl_caches shortId url w =
     w\<lparr>caches := map (\<lambda>c. c(shortId \<mapsto> url)) (caches w),
       log := log w @ map (\<lambda>j. CacheSet j shortId url) [0..<length (caches w)]\<rparr>"
  by (simp add: setTargetUrl_caches_def set_caches_eq)

text \<open>A lookup that no cache tier answers: the backend decides.\<close>

lemma getTargetUrl_miss:
  assumes "\<forall>c\<in>set (caches w). falsy (c shortId)"
  shows "fst (getTargetUrl shortId w) = map_option targetUrl (backend w shortId)"
    and "falsy (map_option targetUrl (backend w shortId)) \<Longrightarrow>
         snd (getTargetUrl shortId w) =
           w\<lparr>log := log w @ concat (map (asked shortId) [0..<length (caches w)]) @
                      [BackendGetTargetUrl shortId]\<rparr>"
proof -
  let ?w1 = "w\<lparr>log := log w @ concat (map (asked shortId) [0..<length (caches w)])\<rparr>"
  have l: "getTargetUrl_caches shortId 0 (caches w) (None, w) =
      (if caches w = [] then None else last (caches w) shortId, ?w1)"
    using getTargetUrl_caches_miss [OF _ assms, of None 0 w] by simp
  have f: "falsy (if caches w = [] then None else last (caches w) shortId)"
    using assms by simp
  show "fst (getTargetUrl shortId w) = map_option targetUrl (backend w shortId)"
    using f by (simp add: getTargetUrl_def l backend_getTargetUrl_def emit_def split: option.splits)
  show "snd (getTargetUrl shortId w) =
           w\<lparr>log := log w @ concat (map (asked shortId) [0..<length (caches w)]) @
                      [BackendGetTargetUrl shortId]\<rparr>"
    if "falsy (map_option targetUrl (backend w shortId))"
    using f that by (simp add: getTargetUrl_def l backend_getTargetUrl_def emit_def)
qed

lemma getTargetUrl_hit:
  assumes i: "i < length (caches w)"
    and hit: "\<not> falsy ((caches w ! i) shortId)"
    and miss: "\<forall>j<i. falsy ((caches w ! j) shortId)"
  shows "fst (getTargetUrl shortId w) = (caches w ! i) shortId"
    and "trace w (snd (getTargetUrl shortId w)) =
           concat (map (asked shortId) [0..<i + 1]) @
           map CacheInit [i + 1..<length (caches w)] @
           BackendUpdateShortLinkLastAccessTime shortId #
           map (\<lambda>j. CacheSet j shortId (the ((caches w ! i) shortId))) [0..<length (caches w)]"
proof -
  let ?pre = "take i (caches w)" and ?c = "caches w ! i" and ?post = "drop (Suc i) (caches w)"
  have split: "caches w = ?pre @ ?c # ?post"
    using i by (rule id_take_nth_drop)
  have pre: "\<forall>c\<in>set ?pre. falsy (c shortId)"
    using miss i by (auto simp: in_set_conv_nth)
  have e1: "0 + length ?pre + 1 = i + 1" and e2: "i + 1 + length ?post = length (caches w)"
    using i by simp_all
  obtain u where u: "?c shortId = Some u" "u \<noteq> []"
    using hit by (cases "?c shortId") simp_all
  let ?w1 = "w\<lparr>log := log w @ concat (map (asked shortId) [0..<i + 1]) @
                 map CacheInit [i + 1..<length (caches w)]\<rparr>"
  have "getTargetUrl_caches shortId 0 (?pre @ ?c # ?post) (None, w) = (?c shortId, ?w1)"
    using getTargetUrl_caches_first [of None ?pre shortId ?c 0 ?post w, OF falsy_simps(1) pre hit]
    unfolding e1 e2 .
  then have l: "getTargetUrl_caches shortId 0 (caches w) (None, w) = (Some u, ?w1)"
    using split u(1) by (simp del: upt_Suc)
  have g: "getTargetUrl shortId w =
      (Some u, setTargetUrl_caches shortId u (backend_updateShortLinkLastAccessTime shortId ?w1))"
    using u(2) by (simp add: getTargetUrl_def l)
  show "fst (getTargetUrl shortId w) = (caches w ! i) shortId"
    by (simp add: g u(1))
  have "log (snd (getTargetUrl shortId w)) = log w @
           concat (map (asked shortId) [0..<i + 1]) @
           map CacheInit [i + 1..<length (caches w)] @
           BackendUpdateShortLinkLastAccessTime shortId #
           map (\<lambda>j. CacheSet j shortId u) [0..<length (caches w)]"
    by (simp add: g setTargetUrl_caches_eq backend_updateShortLinkLastAccessTime_def emit_def Let_def
        split: option.splits del: upt_Suc)
  then show "trace w (snd (getTargetUrl shortId w)) =
           concat (map (asked shortId) [0..<i + 1]) @
           map CacheInit [i + 1..<length (caches w)] @
           BackendUpdateShortLinkLastAccessTime shortId #
           map (\<lambda>j. CacheSet j shortId (the ((caches w ! i) shortId))) [0..<length (caches w)]"
    using u(1) by (simp add: trace_append del: upt_Suc)
qed

text \<open>
  Claim C4, amended. If some cache tier holds a value for the short id that is not the
  empty string, then \<open>getTargetUrl\<close> returns the value of the first such tier in
  registration order, \<open>get\<close> is called on no later tier, and the backend is not read.
  A tier that holds the empty string counts as a miss, like a tier that holds nothing.
\<close>

theorem getTargetUrl_first_hit:
  assumes "i < length (caches w)"
    and "\<not> falsy ((caches w ! i) shortId)"
    and "\<forall>j<i. falsy ((caches w ! j) shortId)"
  shows "fst (getTargetUrl shortId w) = (caches w ! i) shortId \<and>
         (\<forall>j s. i < j \<longrightarrow> CacheGet j s \<notin> set (trace w (snd (getTargetUrl shortId w)))) \<and>
         (\<forall>s. BackendGetTargetUrl s \<notin> set (trace w (snd (getTargetUrl shortId w))))"
  using getTargetUrl_hit [OF assms] by (auto simp: asked_def)

theorem getTargetUrl_first_hit_witness:
  "(let w = \<lparr>backend = Map.empty,
             caches = [Map.empty, [''aa0'' \<mapsto> ''https://poto.nz''],
                       [''aa0'' \<mapsto> ''https://example.com/test'']],
             shortIdLength = 3, random = rng0, clock = 7, log = []\<rparr>
    in 1 < length (caches w) \<and>
       \<not> falsy ((caches w ! 1) ''aa0'') \<and>
       falsy ((caches w ! 0) ''aa0'') \<and>
       fst (getTargetUrl ''aa0'' w) = Some ''https://poto.nz'' \<and>
       CacheGet 2 ''aa0'' \<notin> set (trace w (snd (getTargetUrl ''aa0'' w))) \<and>
       BackendGetTargetUrl ''aa0'' \<notin> set (trace w (snd (getTargetUrl ''aa0'' w))))"
  using getTargetUrl_first_hit [of 1
     "\<lparr>backend = Map.empty,
       caches = [Map.empty, [''aa0'' \<mapsto> ''https://poto.nz''],
                 [''aa0'' \<mapsto> ''https://example.com/test'']],
       shortIdLength = 3, random = rng0, clock = 7, log = []\<rparr>" "''aa0''"]
  by (simp add: Let_def)

text \<open>
  Claim C4 as stated fails where a tier holds the empty string: that value is not absent,
  yet the next tier is asked, the backend is read, and the backend's value is returned.
\<close>

theorem getTargetUrl_first_hit_counterexample:
  "(caches world_empty_string ! 0) ''aa0'' = Some '''' \<and>
   (caches world_empty_string ! 0) ''aa0'' \<noteq> None \<and>
   fst (getTargetUrl ''aa0'' world_empty_string) = Some ''https://poto.nz'' \<and>
   fst (getTargetUrl ''aa0'' world_empty_string) \<noteq> (caches world_empty_string ! 0) ''aa0'' \<and>
   CacheGet 1 ''aa0'' \<in> set (trace world_empty_string (snd (getTargetUrl ''aa0'' world_empty_string))) \<and>
   BackendGetTargetUrl ''aa0''
     \<in> set (trace world_empty_string (snd (getTargetUrl ''aa0'' world_empty_string)))"
  by (simp add: world_empty_string_def getTargetUrl_def backend_getTargetUrl_def emit_def trace_def
      setTargetUrl_caches_def backend_updateShortLinkLastAccessTime_def Let_def)

text \<open>Among tiers of which one holds a non-empty value, there is a first such tier.\<close>

lemma first_truthy_tier:
  assumes "\<not> (\<forall>c\<in>set cs. falsy (c shortId))"
  obtains i where "i < length cs" and "\<not> falsy ((cs ! i) shortId)"
    and "\<forall>j<i. falsy ((cs ! j) shortId)"
proof -
  from assms have ex: "\<exists>j. j < length cs \<and> \<not> falsy ((cs ! j) shortId)"
    by (auto simp: in_set_conv_nth)
  define i where "i = (LEAST j. j < length cs \<and> \<not> falsy ((cs ! j) shortId))"
  from ex have i: "i < length cs \<and> \<not> falsy ((cs ! i) shortId)"
    unfolding i_def by (rule LeastI_ex)
  have "\<forall>j<i. falsy ((cs ! j) shortId)"
  proof (intro allI impI)
    fix j assume "j < i"
    then have "\<not> (j < length cs \<and> \<not> falsy ((cs ! j) shortId))"
      unfolding i_def by (rule not_less_Least)
    with \<open>j < i\<close> i show "falsy ((cs ! j) shortId)" by simp
  qed
  with i that show thesis by blast
qed

text \<open>A lookup that no tier answers asks every tier, then the backend.\<close>

lemma getTargetUrl_miss_log:
  assumes "\<forall>c\<in>set (caches w). falsy (c shortId)"
  shows "\<exists>evs. log (snd (getTargetUrl shortId w)) =
      log w @ concat (map (asked shortId) [0..<length (caches w)]) @ BackendGetTargetUrl shortId # evs"
proof -
  let ?w1 = "w\<lparr>log := log w @ concat (map (asked shortId) [0..<length (caches w)])\<rparr>"
  have l: "getTargetUrl_caches shortId 0 (caches w) (None, w) =
      (if caches w = [] then None else last (caches w) shortId, ?w1)"
    using getTargetUrl_caches_miss [OF _ assms, of None 0 w] by simp
  have "falsy (if caches w = [] then None else last (caches w) shortId)"
    using assms by simp
  then show ?thesis
    by (simp add: getTargetUrl_def l backend_getTargetUrl_def emit_def
        setTargetUrl_caches_eq backend_updateShortLinkLastAccessTime_def Let_def
        split: option.splits del: upt_Suc)
qed

text \<open>A lookup that resolves to nothing, or to the empty string, changes only the log.\<close>

lemma getTargetUrl_falsy_result:
  assumes "falsy (fst (getTargetUrl shortId w))"
  shows "\<exists>evs. snd (getTargetUrl shortId w) = w\<lparr>log := log w @ evs\<rparr> \<and>
           (\<forall>e\<in>set evs. (\<exists>j. e = CacheInit j) \<or> (\<exists>j. e = CacheGet j shortId) \<or>
              e = BackendGetTargetUrl shortId)"
proof (cases "\<forall>c\<in>set (caches w). falsy (c shortId)")
  case True
  from getTargetUrl_miss(1) [OF True] assms
  have "falsy (map_option targetUrl (backend w shortId))" by simp
  from getTargetUrl_miss(2) [OF True this] show ?thesis
    by (intro exI [of _ "concat (map (asked shortId) [0..<length (caches w)]) @
          [BackendGetTargetUrl shortId]"]) (auto simp: asked_def)
next
  case False
  then obtain i where "i < length (caches w)" "\<not> falsy ((caches w ! i) shortId)"
    "\<forall>j<i. falsy ((caches w ! j) shortId)"
    by (rule first_truthy_tier)
  from getTargetUrl_hit(1) [OF this] this(2) assms show ?thesis by simp
qed

text \<open>
  Claim C10. Resolved values are tested for truthiness. A lookup that resolves to the
  empty string makes no last-access update and writes to no cache, and leaves caches and
  backend as they were; it resolves so when the backend stores the empty string and no
  tier holds a non-empty value. A tier that holds the empty string, the tiers before it
  holding nothing non-empty, does not stop the lookup: the next tier is asked, and the
  backend is read when the later tiers hold nothing non-empty either.
\<close>

theorem getTargetUrl_tests_truthiness:
  "(fst (getTargetUrl shortId w) = Some [] \<longrightarrow>
      BackendUpdateShortLinkLastAccessTime shortId \<notin> set (trace w (snd (getTargetUrl shortId w))) \<and>
      (\<forall>j s u. CacheSet j s u \<notin> set (trace w (snd (getTargetUrl shortId w)))) \<and>
      caches (snd (getTargetUrl shortId w)) = caches w \<and>
      backend (snd (getTargetUrl shortId w)) = backend w) \<and>
   ((\<forall>c\<in>set (caches w). falsy (c shortId)) \<and> map_option targetUrl (backend w shortId) = Some [] \<longrightarrow>
      fst (getTargetUrl shortId w) = Some []) \<and>
   (i < length (caches w) \<and> (caches w ! i) shortId = Some [] \<and>
    (\<forall>j<i. falsy ((caches w ! j) shortId)) \<longrightarrow>
      (Suc i < length (caches w) \<longrightarrow>
         CacheGet (Suc i) shortId \<in> set (trace w (snd (getTargetUrl shortId w)))) \<and>
      ((\<forall>j<length (caches w). i < j \<longrightarrow> falsy ((caches w ! j) shortId)) \<longrightarrow>
         BackendGetTargetUrl shortId \<in> set (trace w (snd (getTargetUrl shortId w)))))"
proof (intro conjI impI)
  assume "fst (getTargetUrl shortId w) = Some []"
  then have "falsy (fst (getTargetUrl shortId w))" by simp
  from getTargetUrl_falsy_result [OF this] obtain evs where
    s: "snd (getTargetUrl shortId w) = w\<lparr>log := log w @ evs\<rparr>" and
    e: "\<forall>e\<in>set evs. (\<exists>j. e = CacheInit j) \<or> (\<exists>j. e = CacheGet j shortId) \<or>
              e = BackendGetTargetUrl shortId"
    by blast
  have t: "trace w (snd (getTargetUrl shortId w)) = evs"
    by (rule trace_append) (simp add: s)
  show "BackendUpdateShortLinkLastAccessTime shortId \<notin> set (trace w (snd (getTargetUrl shortId w)))"
    unfolding t using e by auto
  show "\<forall>j s u. CacheSet j s u \<notin> set (trace w (snd (getTargetUrl shortId w)))"
    unfolding t using e by auto
  show "caches (snd (getTargetUrl shortId w)) = caches w" by (simp add: s)
  show "backend (snd (getTargetUrl shortId w)) = backend w" by (simp add: s)
next
  assume "(\<forall>c\<in>set (caches w). falsy (c shortId)) \<and> map_option targetUrl (backend w shortId) = Some []"
  then show "fst (getTargetUrl shortId w) = Some []"
    using getTargetUrl_miss(1) [of w shortId] by simp
next
  assume a: "i < length (caches w) \<and> (caches w ! i) shortId = Some [] \<and>
    (\<forall>j<i. falsy ((caches w ! j) shortId))"
  assume n: "Suc i < length (caches w)"
  show "CacheGet (Suc i) shortId \<in> set (trace w (snd (getTargetUrl shortId w)))"
  proof (cases "\<forall>c\<in>set (caches w). falsy (c shortId)")
    case True
    from getTargetUrl_miss_log [OF True] obtain evs where "log (snd (getTargetUrl shortId w)) =
        log w @ concat (map (asked shortId) [0..<length (caches w)]) @ BackendGetTargetUrl shortId # evs" ..
    from trace_append [OF this] n show ?thesis by (auto simp: asked_def)
  next
    case False
    then obtain k where k: "k < length (caches w)" "\<not> falsy ((caches w ! k) shortId)"
      "\<forall>j<k. falsy ((caches w ! j) shortId)"
      by (rule first_truthy_tier)
    have "i < k"
    proof (rule ccontr)
      assume "\<not> i < k"
      with a k(3) have "falsy ((caches w ! k) shortId)"
        by (cases "k = i") auto
      with k(2) show False by simp
    qed
    with getTargetUrl_hit(2) [OF k] show ?thesis
      by (auto simp: asked_def simp del: upt_Suc)
  qed
next
  assume a: "i < length (caches w) \<and> (caches w ! i) shortId = Some [] \<and>
    (\<forall>j<i. falsy ((caches w ! j) shortId))"
  assume r: "\<forall>j<length (caches w). i < j \<longrightarrow> falsy ((caches w ! j) shortId)"
  have "\<forall>j<length (caches w). falsy ((caches w ! j) shortId)"
  proof (intro allI impI)
    fix j assume j: "j < length (caches w)"
    consider "j < i" | "j = i" | "i < j" by linarith
    then show "falsy ((caches w ! j) shortId)"
      using a r j by cases auto
  qed
  then have "\<forall>c\<in>set (caches w). falsy (c shortId)"
    by (auto simp: in_set_conv_nth)
  from getTargetUrl_miss_log [OF this] obtain evs where "log (snd (getTargetUrl shortId w)) =
      log w @ concat (map (asked shortId) [0..<length (caches w)]) @ BackendGetTargetUrl shortId # evs" ..
  from trace_append [OF this]
  show "BackendGetTargetUrl shortId \<in> set (trace w (snd (getTargetUrl shortId w)))"
    by simp
qed

theorem getTargetUrl_tests_truthiness_witness:
  "(let w = \<lparr>backend = [''aa0'' \<mapsto> \<lparr>targetUrl = '''', lastAccessedAt = 0\<rparr>],
             caches = [[''aa0'' \<mapsto> ''''], Map.empty],
             shortIdLength = 3, random = rng0, clock = 7, log = []\<rparr>;
        w' = snd (getTargetUrl ''aa0'' w)
    in list_all (\<lambda>c. falsy (c ''aa0'')) (caches w) \<and>
       map_option targetUrl (backend w ''aa0'') = Some [] \<and>
       (caches w ! 0) ''aa0'' = Some [] \<and>
       Suc 0 < length (caches w) \<and>
       fst (getTargetUrl ''aa0'' w) = Some [] \<and>
       BackendUpdateShortLinkLastAccessTime ''aa0'' \<notin> set (trace w w') \<and>
       caches w' = caches w \<and>
       CacheGet (Suc 0) ''aa0'' \<in> set (trace w w') \<and>
       BackendGetTargetUrl ''aa0'' \<in> set (trace w w'))"
  using getTargetUrl_tests_truthiness [of "''aa0''"
      "\<lparr>backend = [''aa0'' \<mapsto> \<lparr>targetUrl = '''', lastAccessedAt = 0\<rparr>],
        caches = [[''aa0'' \<mapsto> ''''], Map.empty],
        shortIdLength = 3, random = rng0, clock = 7, log = []\<rparr>" 0]
  by (simp add: Let_def less_Suc_eq)

lemma getTargetUrl_caches_shortIdLength:
  "shortIdLength (snd (getTargetUrl_caches shortId i cs (url, w))) = shortIdLength w"
  by (induction cs arbitrary: i url w) (simp_all add: emit_def Let_def)

lemma getTargetUrl_shortIdLength:
  "shortIdLength (snd (getTargetUrl shortId w)) = shortIdLength w"
proof -
  obtain u1 w1 where l: "getTargetUrl_caches shortId 0 (caches w) (None, w) = (u1, w1)"
    by (cases "getTargetUrl_caches shortId 0 (caches w) (None, w)")
  have "shortIdLength w1 = shortIdLength w"
    using getTargetUrl_caches_shortIdLength [of shortId 0 "caches w" None w] l by simp
  then show ?thesis
    by (simp add: getTargetUrl_def l backend_getTargetUrl_def setTargetUrl_caches_def
        backend_updateShortLinkLastAccessTime_def emit_def Let_def split: option.splits prod.splits)
qed

section \<open>The last-access time\<close>

lemma updateShortLinkLastAccessTime_shortIdLength:
  "shortIdLength (snd (updateShortLinkLastAccessTime shortId t w)) = shortIdLength w"
  by (simp add: updateShortLinkLastAccessTime_def backend_updateShortLinkLastAccessTime_def
      emit_def Let_def split: option.splits)

text \<open>
  Claim C9. The manager's \<open>updateShortLinkLastAccessTime\<close> ignores its time argument:
  for any two times the result and the resulting world are the same, and the one call made
  is the backend's \<open>updateShortLinkLastAccessTime\<close> with the short id alone.
\<close>

theorem updateShortLinkLastAccessTime_ignores_time:
  "updateShortLinkLastAccessTime shortId t1 w = updateShortLinkLastAccessTime shortId t2 w \<and>
   fst (updateShortLinkLastAccessTime shortId t1 w) = () \<and>
   snd (updateShortLinkLastAccessTime shortId t1 w) = backend_updateShortLinkLastAccessTime shortId w \<and>
   trace w (snd (updateShortLinkLastAccessTime shortId t1 w)) =
     [BackendUpdateShortLinkLastAccessTime shortId]"
  by (simp add: updateShortLinkLastAccessTime_def backend_updateShortLinkLastAccessTime_def
      emit_def trace_def Let_def split: option.splits)

text \<open>
  Claim C2 says that with \<open>shouldUpdateLastAccessOnGet\<close> set to false no successful lookup
  updates the last-access time. The code at that input: a manager created with the option
  set to false, over a backend that holds \<open>aa0\<close>, last accessed at 0, the clock at 5. The
  lookup succeeds, calls the backend's \<open>updateShortLinkLastAccessTime\<close>, and the time of
  last access becomes 5.
\<close>

theorem getTargetUrl_ignores_option:
  "(let w = createManager
              \<lparr>props_backend =
                 [''aa0'' \<mapsto> \<lparr>targetUrl = ''https://example.com/test'', lastAccessedAt = 0\<rparr>],
               props_caches = None, props_shortIdLength = 3,
               options = \<lparr>shouldUpdateLastAccessOnGet = Some False\<rparr>\<rparr> rng0 5;
        w' = snd (getTargetUrl ''aa0'' w)
    in fst (getTargetUrl ''aa0'' w) = Some ''https://example.com/test'' \<and>
       trace w w' = [BackendGetTargetUrl ''aa0'', BackendUpdateShortLinkLastAccessTime ''aa0''] \<and>
       backend w ''aa0'' = Some \<lparr>targetUrl = ''https://example.com/test'', lastAccessedAt = 0\<rparr> \<and>
       backend w' ''aa0'' = Some \<lparr>targetUrl = ''https://example.com/test'', lastAccessedAt = 5\<rparr>)"
  by (simp add: createManager_def getTargetUrl_def backend_getTargetUrl_def emit_def trace_def
      setTargetUrl_caches_def backend_updateShortLinkLastAccessTime_def Let_def)

section \<open>Creation\<close>

lemma length_updates_append: "length_updates (xs @ ys) = length_updates xs @ length_updates ys"
  by (induction xs rule: length_updates.induct) simp_all

text \<open>An attempt: the first candidate that the backend does not hold.\<close>

lemma attempt_eq:
  "attempt w =
     (find (\<lambda>id. backend w id = None) (candidates w),
      w\<lparr>random := snd (generateUniqueShortIds 50 (shortIdLength w) (random w)),
        log := log w @ [BackendCheckShortIdsExist (candidates w)]\<rparr>)"
  by (cases "generateUniqueShortIds 50 (shortIdLength w) (random w)")
    (simp add: attempt_def candidates_def backend_checkShortIdsExist_def emit_def cong: find_cong)

lemma attempt_none:
  "(fst (attempt w) = None) = (\<forall>id\<in>set (candidates w). backend w id \<noteq> None)"
  by (auto simp: attempt_eq find_None_iff)

lemma retry_eq:
  "retry w =
     w\<lparr>random := snd (generateUniqueShortIds 50 (shortIdLength w) (random w)),
       shortIdLength := shortIdLength w + 1,
       log := log w @ [BackendCheckShortIdsExist (candidates w),
                       OnShortIdLengthUpdated (shortIdLength w + 1)]\<rparr>"
  by (simp add: retry_def escalate_def attempt_eq onShortIdLengthUpdated_def emit_def Let_def)

lemma generateUniqueShortIds_source:
  "source (snd (generateUniqueShortIds count len g)) = source g"
proof -
  obtain ids loop g' where r: "generateUniqueShortIds_loop count len [] 0 g = (ids, loop, g')"
    by (cases "generateUniqueShortIds_loop count len [] 0 g")
  from generateUniqueShortIds_loop_inv [OF r] show ?thesis
    by (simp add: generateUniqueShortIds_def r)
qed

lemma candidates_length:
  "in_range (random w) \<Longrightarrow> s \<in> set (candidates w) \<Longrightarrow> length s = shortIdLength w"
proof -
  assume g: "in_range (random w)" and s: "s \<in> set (candidates w)"
  obtain ids loop g' where r:
    "generateUniqueShortIds_loop 50 (shortIdLength w) [] 0 (random w) = (ids, loop, g')"
    by (cases "generateUniqueShortIds_loop 50 (shortIdLength w) [] 0 (random w)")
  from generateUniqueShortIds_loop_chars [OF r g] s show ?thesis
    by (simp add: candidates_def generateUniqueShortIds_def r)
qed

lemma in_range_retry: "in_range (random (retry w)) = in_range (random w)"
  by (simp add: retry_eq in_range_def generateUniqueShortIds_source)

text \<open>The loop of createShortLink, one step.\<close>

lemma createShortLink_loop_step:
  "createShortLink_loop (Suc n) w =
     (case find (\<lambda>id. backend w id = None) (candidates w) of
        None \<Rightarrow> createShortLink_loop n (retry w)
      | Some s \<Rightarrow> if s = [] then createShortLink_loop n (retry w) else (s, snd (attempt w)))"
  by (simp add: retry_def attempt_eq split: option.splits)

lemma createShortLink_loop_frame:
  "createShortLink_loop n w = (s, w') \<Longrightarrow>
     backend w' = backend w \<and> caches w' = caches w \<and> clock w' = clock w \<and>
     shortIdLength w \<le> shortIdLength w' \<and>
     (in_range (random w) \<longrightarrow> in_range (random w'))"
proof (induction n arbitrary: w)
  case 0
  then show ?case by auto
next
  case (Suc n)
  have r: "backend (retry w) = backend w \<and> caches (retry w) = caches w \<and>
      clock (retry w) = clock w \<and> shortIdLength w \<le> shortIdLength (retry w)"
    by (simp add: retry_eq)
  have a: "backend (snd (attempt w)) = backend w \<and> caches (snd (attempt w)) = caches w \<and>
      clock (snd (attempt w)) = clock w \<and> shortIdLength (snd (attempt w)) = shortIdLength w \<and>
      in_range (random (snd (attempt w))) = in_range (random w)"
    by (simp add: attempt_eq in_range_def generateUniqueShortIds_source)
  from Suc.prems consider "createShortLink_loop n (retry w) = (s, w')" | "w' = snd (attempt w)"
    by (auto simp: createShortLink_loop_step simp del: createShortLink_loop.simps
        split: option.splits if_splits)
  then show ?case
  proof cases
    case 1
    from Suc.IH [OF 1] r in_range_retry [of w] show ?thesis by auto
  next
    case 2
    with a show ?thesis by simp
  qed
qed

lemma createShortLink_loop_log:
  "createShortLink_loop n w = (s, w') \<Longrightarrow>
     \<exists>evs. log w' = log w @ evs \<and>
       (\<forall>e\<in>set evs. (\<exists>ids. e = BackendCheckShortIdsExist ids) \<or> (\<exists>k. e = OnShortIdLengthUpdated k)) \<and>
       length_updates evs = [shortIdLength w + 1..<shortIdLength w' + 1]"
proof (induction n arbitrary: w)
  case 0
  then show ?case by auto
next
  case (Suc n)
  from Suc.prems consider "createShortLink_loop n (retry w) = (s, w')" | "w' = snd (attempt w)"
    by (auto simp: createShortLink_loop_step simp del: createShortLink_loop.simps
        split: option.splits if_splits)
  then show ?case
  proof cases
    case 1
    from Suc.IH [OF 1] obtain evs where
      e: "log w' = log (retry w) @ evs"
        "\<forall>e\<in>set evs. (\<exists>ids. e = BackendCheckShortIdsExist ids) \<or> (\<exists>k. e = OnShortIdLengthUpdated k)"
        "length_updates evs = [shortIdLength (retry w) + 1..<shortIdLength w' + 1]"
      by blast
    from createShortLink_loop_frame [OF 1] have le: "shortIdLength w + 1 \<le> shortIdLength w'"
      by (simp add: retry_eq)
    let ?evs = "[BackendCheckShortIdsExist (candidates w), OnShortIdLengthUpdated (shortIdLength w + 1)] @ evs"
    have "[shortIdLength w + 1..<shortIdLength w' + 1] =
        (shortIdLength w + 1) # [shortIdLength w + 1 + 1..<shortIdLength w' + 1]"
      using le by (simp add: upt_conv_Cons del: upt_Suc)
    with e have "log w' = log w @ ?evs \<and>
       (\<forall>e\<in>set ?evs. (\<exists>ids. e = BackendCheckShortIdsExist ids) \<or> (\<exists>k. e = OnShortIdLengthUpdated k)) \<and>
       length_updates ?evs = [shortIdLength w + 1..<shortIdLength w' + 1]"
      by (simp add: retry_eq del: upt_Suc)
    then show ?thesis by blast
  next
    case 2
    let ?evs = "[BackendCheckShortIdsExist (candidates w)]"
    from 2 have "log w' = log w @ ?evs \<and>
       (\<forall>e\<in>set ?evs. (\<exists>ids. e = BackendCheckShortIdsExist ids) \<or> (\<exists>k. e = OnShortIdLengthUpdated k)) \<and>
       length_updates ?evs = [shortIdLength w + 1..<shortIdLength w' + 1]"
      by (simp add: attempt_eq)
    then show ?thesis by blast
  qed
qed

text \<open>What the loop returns: nothing, or a candidate of the final length that is free.\<close>

lemma createShortLink_loop_result:
  "createShortLink_loop n w = (s, w') \<Longrightarrow> s \<noteq> [] \<Longrightarrow>
     backend w s = None \<and> (in_range (random w) \<longrightarrow> length s = shortIdLength w')"
proof (induction n arbitrary: w)
  case 0
  then show ?case by simp
next
  case (Suc n)
  from Suc.prems(1) consider "createShortLink_loop n (retry w) = (s, w')"
    | "find (\<lambda>id. backend w id = None) (candidates w) = Some s" "w' = snd (attempt w)"
    by (auto simp: createShortLink_loop_step simp del: createShortLink_loop.simps
        split: option.splits if_splits)
  then show ?case
  proof cases
    case 1
    from Suc.IH [OF 1 Suc.prems(2)] show ?thesis
      by (simp add: in_range_retry) (simp add: retry_eq)
  next
    case 2
    from 2(1) have "backend w s = None" "s \<in> set (candidates w)"
      by (auto simp: find_Some_iff)
    with candidates_length [of w s] 2(2) show ?thesis
      by (simp add: attempt_eq)
  qed
qed

text \<open>createShortLink: either the loop found nothing, or the backend stores the mapping.\<close>

lemma createShortLink_exhausted:
  "createShortLink_loop 3 w = ([], w1) \<Longrightarrow> createShortLink url w = (Inl ExhaustionError, w1)"
  by (simp add: createShortLink_def)

lemma createShortLink_found:
  assumes "createShortLink_loop 3 w = (s, w1)" and "s \<noteq> []"
  shows "createShortLink url w =
     (Inr s, w1\<lparr>backend := (backend w)(s \<mapsto> \<lparr>targetUrl = url, lastAccessedAt = clock w\<rparr>),
               log := log w1 @ [BackendCreateShortLink s url]\<rparr>)"
proof -
  from createShortLink_loop_result [OF assms] createShortLink_loop_frame [OF assms(1)]
  have "backend w1 s = None" "backend w1 = backend w" "clock w1 = clock w" by simp_all
  with assms show ?thesis
    by (simp add: createShortLink_def backend_createShortLink_def emit_def Let_def)
qed

lemma createShortLink_Inr:
  assumes "fst (createShortLink url w) = Inr s"
  shows "s \<noteq> [] \<and> createShortLink_loop 3 w = (s, snd (createShortLink_loop 3 w))"
proof -
  obtain s' w1 where l: "createShortLink_loop 3 w = (s', w1)"
    by (cases "createShortLink_loop 3 w")
  show ?thesis
  proof (cases "s' = []")
    case True
    with l assms show ?thesis by (simp add: createShortLink_exhausted)
  next
    case False
    from createShortLink_found [OF l False, of url] assms l False show ?thesis by simp
  qed
qed

lemma createShortLink_caches:
  "caches (snd (createShortLink url w)) = caches w"
proof -
  obtain s w1 where l: "createShortLink_loop 3 w = (s, w1)"
    by (cases "createShortLink_loop 3 w")
  from createShortLink_loop_frame [OF l] have c: "caches w1 = caches w" by simp
  show ?thesis
  proof (cases "s = []")
    case True
    with l c show ?thesis by (simp add: createShortLink_exhausted)
  next
    case False
    from createShortLink_found [OF l False, of url] c show ?thesis by simp
  qed
qed

lemma createShortLink_log:
  "\<exists>evs. log (snd (createShortLink url w)) = log w @ evs \<and>
     (\<forall>e\<in>set evs. (\<exists>ids. e = BackendCheckShortIdsExist ids) \<or> (\<exists>k. e = OnShortIdLengthUpdated k) \<or>
        (\<exists>s. fst (createShortLink url w) = Inr s \<and> e = BackendCreateShortLink s url)) \<and>
     length_updates evs = [shortIdLength w + 1..<shortIdLength (snd (createShortLink url w)) + 1]"
proof -
  obtain s w1 where l: "createShortLink_loop 3 w = (s, w1)"
    by (cases "createShortLink_loop 3 w")
  from createShortLink_loop_log [OF l] obtain evs where
    e: "log w1 = log w @ evs"
       "\<forall>e\<in>set evs. (\<exists>ids. e = BackendCheckShortIdsExist ids) \<or> (\<exists>k. e = OnShortIdLengthUpdated k)"
       "length_updates evs = [shortIdLength w + 1..<shortIdLength w1 + 1]"
    by blast
  show ?thesis
  proof (cases "s = []")
    case True
    from createShortLink_exhausted [OF l [unfolded True], of url] e show ?thesis
      by (intro exI [of _ evs]) auto
  next
    case False
    from createShortLink_found [OF l False, of url] e show ?thesis
      by (intro exI [of _ "evs @ [BackendCreateShortLink s url]"])
        (auto simp: length_updates_append simp del: upt_Suc)
  qed
qed

text \<open>Three attempts that find every candidate taken.\<close>

lemma createShortLink_loop_taken:
  "\<forall>id\<in>set (candidates w). backend w id \<noteq> None \<Longrightarrow>
   createShortLink_loop (Suc n) w = createShortLink_loop n (retry w)"
  by (simp add: createShortLink_loop_step find_None_iff [THEN iffD2] del: createShortLink_loop.simps)

text \<open>
  Claim C3. If in each of the three attempts every generated candidate is held by the
  backend, then \<open>createShortLink\<close> fails with the exhaustion error, never calls the
  backend's \<open>createShortLink\<close>, and leaves the backend's mappings as they were.
\<close>

theorem createShortLink_exhaustion:
  assumes "\<forall>id\<in>set (candidates w). backend w id \<noteq> None"
    and "\<forall>id\<in>set (candidates (retry w)). backend w id \<noteq> None"
    and "\<forall>id\<in>set (candidates (retry (retry w))). backend w id \<noteq> None"
  shows "fst (createShortLink url w) = Inl ExhaustionError \<and>
         (\<forall>s u. BackendCreateShortLink s u \<notin> set (trace w (snd (createShortLink url w)))) \<and>
         backend (snd (createShortLink url w)) = backend w"
proof -
  have b: "backend (retry w) = backend w" "backend (retry (retry w)) = backend w"
    by (simp_all add: retry_eq)
  have "createShortLink_loop 3 w = createShortLink_loop 2 (retry w)"
    using createShortLink_loop_taken [OF assms(1), of 2] by (simp add: numeral_3_eq_3 numeral_2_eq_2)
  also have "\<dots> = createShortLink_loop 1 (retry (retry w))"
    using createShortLink_loop_taken [of "retry w" 1] assms(2) b by (simp add: numeral_2_eq_2)
  also have "\<dots> = createShortLink_loop 0 (retry (retry (retry w)))"
    using createShortLink_loop_taken [of "retry (retry w)" 0] assms(3) b by simp
  finally have l: "createShortLink_loop 3 w = ([], retry (retry (retry w)))" by simp
  have r: "createShortLink url w = (Inl ExhaustionError, retry (retry (retry w)))"
    using l by (rule createShortLink_exhausted)
  from createShortLink_log [of url w] obtain evs where
    e: "log (snd (createShortLink url w)) = log w @ evs"
       "\<forall>e\<in>set evs. (\<exists>ids. e = BackendCheckShortIdsExist ids) \<or> (\<exists>k. e = OnShortIdLengthUpdated k) \<or>
        (\<exists>s. fst (createShortLink url w) = Inr s \<and> e = BackendCreateShortLink s url)"
    by blast
  have t: "trace w (snd (createShortLink url w)) = evs"
    using e(1) by (rule trace_append)
  have "\<forall>s u. BackendCreateShortLink s u \<notin> set evs"
    using e(2) r by auto
  with r t show ?thesis by (simp add: retry_eq)
qed

theorem createShortLink_exhaustion_witness:
  "(let w = \<lparr>backend = (\<lambda>id. Some \<lparr>targetUrl = ''https://poto.nz'', lastAccessedAt = 0\<rparr>),
             caches = [], shortIdLength = 3, random = rng0, clock = 0, log = []\<rparr>
    in list_all (\<lambda>id. backend w id \<noteq> None) (candidates w) \<and>
       list_all (\<lambda>id. backend w id \<noteq> None) (candidates (retry w)) \<and>
       list_all (\<lambda>id. backend w id \<noteq> None) (candidates (retry (retry w))) \<and>
       fst (createShortLink ''https://example.com/test'' w) = Inl ExhaustionError \<and>
       backend (snd (createShortLink ''https://example.com/test'' w)) = backend w)"
  using createShortLink_exhaustion [of
     "\<lparr>backend = (\<lambda>id. Some \<lparr>targetUrl = ''https://poto.nz'', lastAccessedAt = 0\<rparr>),
       caches = [], shortIdLength = 3, random = rng0, clock = 0, log = []\<rparr>"
     "''https://example.com/test''"]
  by (simp add: Let_def list_all_iff)

section \<open>Examples of generated candidates\<close>

lemma generateRandomShortId_loop_numeral:
  "generateRandomShortId_loop (numeral k) r g =
     (case nextIndex g of (i, g') \<Rightarrow>
        generateRandomShortId_loop (pred_numeral k) (r @ charAt ALLOWED_CHARS i) g')"
  by (simp add: numeral_eq_Suc)

lemma candidates3:
  "generateUniqueShortIds 50 3 rng0 =
    ([''012'', ''345'', ''678'', ''9ab'', ''cde'', ''fgh'', ''ijk'', ''lmn'',
      ''opq'', ''rst'', ''uvw'', ''xyz'', ''ABC'', ''DEF'', ''GHI'', ''JKL'',
      ''MNO'', ''PQR'', ''STU'', ''VWX'', ''Y01'', ''234'', ''567'', ''89a'',
      ''bcd'', ''efg'', ''hij'', ''klm'', ''nop'', ''qrs'', ''tuv'', ''wxy'',
      ''zAB'', ''CDE'', ''FGH'', ''IJK'', ''LMN'', ''OPQ'', ''RST'', ''UVW'',
      ''XY0'', ''123'', ''456'', ''789'', ''abc'', ''def'', ''ghi'', ''jkl'',
      ''mno'', ''pqr''], rng0\<lparr>calls := 150\<rparr>)"
  by (simp add: rng0_def generateUniqueShortIds_def generateUniqueShortIds_loop.simps
      generateRandomShortId_def nextIndex_def charAt_def ALLOWED_CHARS_def set_add_def
      generateRandomShortId_loop_numeral)

lemma candidates4:
  "generateUniqueShortIds 50 4 (rng0\<lparr>calls := 150\<rparr>) =
    ([''stuv'', ''wxyz'', ''ABCD'', ''EFGH'', ''IJKL'', ''MNOP'', ''QRST'',
      ''UVWX'', ''Y012'', ''3456'', ''789a'', ''bcde'', ''fghi'', ''jklm'',
      ''nopq'', ''rstu'', ''vwxy'', ''zABC'', ''DEFG'', ''HIJK'', ''LMNO'',
      ''PQRS'', ''TUVW'', ''XY01'', ''2345'', ''6789'', ''abcd'', ''efgh'',
      ''ijkl'', ''mnop'', ''qrst'', ''uvwx'', ''yzAB'', ''CDEF'', ''GHIJ'',
      ''KLMN'', ''OPQR'', ''STUV'', ''WXY0'', ''1234'', ''5678'', ''9abc'',
      ''defg'', ''hijk'', ''lmno'', ''pqrs'', ''tuvw'', ''xyzA'', ''BCDE'',
      ''FGHI''], rng0\<lparr>calls := 350\<rparr>)"
  by (simp add: rng0_def generateUniqueShortIds_def generateUniqueShortIds_loop.simps
      generateRandomShortId_def nextIndex_def charAt_def ALLOWED_CHARS_def set_add_def
      generateRandomShortId_loop_numeral)

text \<open>When the first candidate is free, createShortLink takes it.\<close>

lemma createShortLink_loop_first_free:
  assumes "candidates w = s # rest" and "backend w s = None" and "s \<noteq> []"
  shows "createShortLink_loop (Suc n) w = (s, snd (attempt w))"
  using assms by (simp add: createShortLink_loop_step del: createShortLink_loop.simps)

lemma createShortLink_first_free:
  assumes "candidates w = s # rest" and "backend w s = None" and "s \<noteq> []"
  shows "createShortLink url w =
     (Inr s, w\<lparr>random := snd (generateUniqueShortIds 50 (shortIdLength w) (random w)),
               backend := (backend w)(s \<mapsto> \<lparr>targetUrl = url, lastAccessedAt = clock w\<rparr>),
               log := log w @ [BackendCheckShortIdsExist (candidates w),
                               BackendCreateShortLink s url]\<rparr>)"
proof -
  have "createShortLink_loop 3 w = (s, snd (attempt w))"
    using createShortLink_loop_first_free [OF assms, of 2] by (simp add: numeral_3_eq_3)
  from createShortLink_found [OF this assms(3), of url] show ?thesis
    by (simp add: attempt_eq)
qed

section \<open>Escalation of the length\<close>

text \<open>
  Claim C8. No operation of the manager decreases \<open>shortIdLength\<close>, and the length
  callback is called with exactly the values \<open>L + 1\<close>, ..., up to the final length, in this
  order. An attempt that finds every candidate of the current length \<open>L\<close> taken increments
  the length by exactly 1, calls the callback with \<open>L + 1\<close>, and the loop goes on with the
  new length; a short id returned after that has at least \<open>L + 1\<close> characters (under the
  contract of \<^verbatim>\<open>Math.random()\<close>).
\<close>

theorem shortIdLength_escalation:
  "shortIdLength w \<le> shortIdLength (snd (createShortLink url w)) \<and>
   shortIdLength (snd (getTargetUrl shortId' w)) = shortIdLength w \<and>
   shortIdLength (snd (updateShortLinkLastAccessTime shortId' time w)) = shortIdLength w \<and>
   length_updates (trace w (snd (createShortLink url w))) =
     [shortIdLength w + 1..<shortIdLength (snd (createShortLink url w)) + 1] \<and>
   ((\<forall>id\<in>set (candidates w). backend w id \<noteq> None) \<longrightarrow>
      createShortLink_loop (Suc n) w = createShortLink_loop n (retry w) \<and>
      shortIdLength (retry w) = shortIdLength w + 1 \<and>
      trace w (retry w) =
        [BackendCheckShortIdsExist (candidates w), OnShortIdLengthUpdated (shortIdLength w + 1)] \<and>
      (in_range (random w) \<longrightarrow>
         (\<forall>shortId. fst (createShortLink url w) = Inr shortId \<longrightarrow>
            shortIdLength w + 1 \<le> length shortId)))"
proof (intro conjI impI allI)
  obtain s w1 where l: "createShortLink_loop 3 w = (s, w1)"
    by (cases "createShortLink_loop 3 w")
  have w1: "shortIdLength (snd (createShortLink url w)) = shortIdLength w1"
  proof (cases "s = []")
    case True
    with l show ?thesis by (simp add: createShortLink_exhausted)
  next
    case False
    from createShortLink_found [OF l False, of url] show ?thesis by simp
  qed
  from createShortLink_loop_frame [OF l] w1
  show "shortIdLength w \<le> shortIdLength (snd (createShortLink url w))" by simp
  from createShortLink_log [of url w] obtain evs where
    e: "log (snd (createShortLink url w)) = log w @ evs"
       "length_updates evs = [shortIdLength w + 1..<shortIdLength (snd (createShortLink url w)) + 1]"
    by blast
  from trace_append [OF e(1)] e(2)
  show "length_updates (trace w (snd (createShortLink url w))) =
     [shortIdLength w + 1..<shortIdLength (snd (createShortLink url w)) + 1]" by simp
next
  show "shortIdLength (snd (getTargetUrl shortId' w)) = shortIdLength w"
    by (rule getTargetUrl_shortIdLength)
next
  show "shortIdLength (snd (updateShortLinkLastAccessTime shortId' time w)) = shortIdLength w"
    by (rule updateShortLinkLastAccessTime_shortIdLength)
next
  assume "\<forall>id\<in>set (candidates w). backend w id \<noteq> None"
  then show "createShortLink_loop (Suc n) w = createShortLink_loop n (retry w)"
    by (rule createShortLink_loop_taken)
next
  show "shortIdLength (retry w) = shortIdLength w + 1" by (simp add: retry_eq)
next
  show "trace w (retry w) =
        [BackendCheckShortIdsExist (candidates w), OnShortIdLengthUpdated (shortIdLength w + 1)]"
    by (rule trace_append) (simp add: retry_eq)
next
  fix shortId
  assume t: "\<forall>id\<in>set (candidates w). backend w id \<noteq> None" and g: "in_range (random w)"
    and r: "fst (createShortLink url w) = Inr shortId"
  from createShortLink_Inr [OF r] obtain w1 where
    l: "createShortLink_loop 3 w = (shortId, w1)" and ne: "shortId \<noteq> []" by blast
  from createShortLink_loop_taken [OF t, of 2] l
  have l2: "createShortLink_loop 2 (retry w) = (shortId, w1)"
    by (simp add: numeral_3_eq_3 numeral_2_eq_2)
  from createShortLink_loop_result [OF l2 ne] g
  have "length shortId = shortIdLength w1" by (simp add: in_range_retry)
  moreover from createShortLink_loop_frame [OF l2]
  have "shortIdLength w + 1 \<le> shortIdLength w1" by (simp add: retry_eq)
  ultimately show "shortIdLength w + 1 \<le> length shortId" by simp
qed

theorem shortIdLength_escalation_witness:
  "(let w = \<lparr>backend = (\<lambda>id. if length id = 3
                             then Some \<lparr>targetUrl = ''https://poto.nz'', lastAccessedAt = 0\<rparr>
                             else None),
             caches = [], shortIdLength = 3, random = rng0, clock = 0, log = []\<rparr>;
        w' = snd (createShortLink ''https://example.com/test'' w)
    in in_range (random w) \<and>
       list_all (\<lambda>id. backend w id \<noteq> None) (candidates w) \<and>
       fst (createShortLink ''https://example.com/test'' w) = Inr ''stuv'' \<and>
       shortIdLength w + 1 \<le> length ''stuv'' \<and>
       shortIdLength w' = 4 \<and>
       length_updates (trace w w') = [4] \<and>
       createShortLink_loop (Suc 2) w = createShortLink_loop 2 (retry w))"
proof -
  let ?w = "\<lparr>backend = (\<lambda>id. if length id = 3
                             then Some \<lparr>targetUrl = ''https://poto.nz'', lastAccessedAt = 0\<rparr>
                             else None),
             caches = [], shortIdLength = 3, random = rng0, clock = 0, log = []\<rparr>"
  have g: "in_range (random ?w)" by (simp add: in_range_rng0)
  have c3: "candidates ?w = fst (generateUniqueShortIds 50 3 rng0)"
    by (simp add: candidates_def)
  have taken: "\<forall>id\<in>set (candidates ?w). backend ?w id \<noteq> None"
    unfolding c3 candidates3 by simp
  have r: "shortIdLength (retry ?w) = 4" "random (retry ?w) = rng0\<lparr>calls := 150\<rparr>"
      "backend (retry ?w) = backend ?w"
    by (simp_all add: retry_eq candidates3)
  have c4: "candidates (retry ?w) = ''stuv'' # tl (candidates (retry ?w))"
    by (simp add: candidates_def r candidates4)
  have "createShortLink_loop 3 ?w = createShortLink_loop 2 (retry ?w)"
    using createShortLink_loop_taken [OF taken, of 2] by (simp add: numeral_3_eq_3)
  also have "\<dots> = (''stuv'', snd (attempt (retry ?w)))"
    using createShortLink_loop_first_free [OF c4, of 1] r(3) by (simp add: numeral_2_eq_2)
  finally have l: "createShortLink_loop 3 ?w = (''stuv'', snd (attempt (retry ?w)))" .
  have f: "createShortLink ''https://example.com/test'' ?w =
     (Inr ''stuv'', snd (attempt (retry ?w))
        \<lparr>backend := (backend ?w)(''stuv'' \<mapsto>
            \<lparr>targetUrl = ''https://example.com/test'', lastAccessedAt = clock ?w\<rparr>),
         log := log (snd (attempt (retry ?w))) @
                [BackendCreateShortLink ''stuv'' ''https://example.com/test'']\<rparr>)"
    by (rule createShortLink_found [OF l]) simp
  have s: "shortIdLength (snd (createShortLink ''https://example.com/test'' ?w)) = 4"
    by (simp add: f attempt_eq r)
  from shortIdLength_escalation [of ?w "''https://example.com/test''" "''012''" 0 2] g taken f s
  show ?thesis by (simp add: Let_def list_all_iff numeral_3_eq_3)
qed

section \<open>Creation and the caches\<close>

text \<open>
  Claim C1 says that after a successful \<open>createShortLink\<close> every cache tier holds the new
  entry. The code at the input of the test "should write to all caches when creating a
  short link": a manager with one empty cache over an empty backend. The call returns
  \<open>012\<close> and the backend stores the mapping, but the cache holds nothing for \<open>012\<close>: the
  only calls made are the backend's \<open>checkShortIdsExist\<close> and \<open>createShortLink\<close>.
\<close>

theorem createShortLink_skips_caches:
  "(let w = createManager \<lparr>props_backend = Map.empty, props_caches = Some [Map.empty],
                          props_shortIdLength = 3\<rparr> rng0 0;
        w' = snd (createShortLink ''https://example.com/test'' w)
    in fst (createShortLink ''https://example.com/test'' w) = Inr ''012'' \<and>
       backend w' ''012'' = Some \<lparr>targetUrl = ''https://example.com/test'', lastAccessedAt = 0\<rparr> \<and>
       length (caches w') = 1 \<and>
       (caches w' ! 0) ''012'' = None \<and>
       trace w w' = [BackendCheckShortIdsExist (candidates w),
                     BackendCreateShortLink ''012'' ''https://example.com/test''])"
proof -
  let ?w = "createManager \<lparr>props_backend = Map.empty, props_caches = Some [Map.empty],
                          props_shortIdLength = 3\<rparr> rng0 0"
  have c: "candidates ?w = ''012'' # tl (candidates ?w)"
    by (simp add: candidates_def createManager_def candidates3)
  have b: "backend ?w ''012'' = None" by (simp add: createManager_def)
  from createShortLink_first_free [OF c b, of "''https://example.com/test''"]
  show ?thesis by (simp add: Let_def trace_def) (simp add: createManager_def)
qed

text \<open>
  Claim C5 says that \<open>getTargetUrl\<close> right after \<open>createShortLink\<close> returns the URL just
  stored. The code at a manager whose cache already holds an entry for \<open>012\<close> (a short id
  that the backend does not hold): \<open>createShortLink\<close> returns \<open>012\<close> and stores the new
  URL in the backend, the cache is not written, and the lookup that follows returns the
  cache's old URL.
\<close>

theorem roundtrip_stale_cache:
  "(let w = createManager \<lparr>props_backend = Map.empty,
                          props_caches = Some [[''012'' \<mapsto> ''https://example.com/test'']],
                          props_shortIdLength = 3\<rparr> rng0 0;
        w' = snd (createShortLink ''https://poto.nz'' w)
    in fst (createShortLink ''https://poto.nz'' w) = Inr ''012'' \<and>
       backend w' ''012'' = Some \<lparr>targetUrl = ''https://poto.nz'', lastAccessedAt = 0\<rparr> \<and>
       fst (getTargetUrl ''012'' w') = Some ''https://example.com/test'')"
proof -
  let ?w = "createManager \<lparr>props_backend = Map.empty,
                          props_caches = Some [[''012'' \<mapsto> ''https://example.com/test'']],
                          props_shortIdLength = 3\<rparr> rng0 0"
  let ?w' = "snd (createShortLink ''https://poto.nz'' ?w)"
  have c: "candidates ?w = ''012'' # tl (candidates ?w)"
    by (simp add: candidates_def createManager_def candidates3)
  have b: "backend ?w ''012'' = None" by (simp add: createManager_def)
  note r = createShortLink_first_free [OF c b, of "''https://poto.nz''"]
  have cs: "caches ?w' = [[''012'' \<mapsto> ''https://example.com/test'']]"
    by (simp add: createShortLink_caches) (simp add: createManager_def)
  have "fst (getTargetUrl ''012'' ?w') = (caches ?w' ! 0) ''012''"
    by (rule getTargetUrl_hit(1)) (simp_all add: cs)
  with r cs show ?thesis by (simp add: Let_def) (simp add: createManager_def)
qed

text \<open>The round trip, when no cache tier holds a value for the new short id.\<close>

lemma createShortLink_backend:
  assumes "fst (createShortLink url w) = Inr s"
  shows "map_option targetUrl (backend (snd (createShortLink url w)) s) = Some url"
proof -
  from createShortLink_Inr [OF assms] obtain w1 where
    "createShortLink_loop 3 w = (s, w1)" "s \<noteq> []" by blast
  from createShortLink_found [OF this, of url] show ?thesis by simp
qed

lemma roundtrip_without_stale_cache:
  assumes "fst (createShortLink url w) = Inr s" and "\<forall>c\<in>set (caches w). falsy (c s)"
  shows "fst (getTargetUrl s (snd (createShortLink url w))) = Some url"
proof -
  have "\<forall>c\<in>set (caches (snd (createShortLink url w))). falsy (c s)"
    using assms(2) by (simp add: createShortLink_caches)
  from getTargetUrl_miss(1) [OF this] createShortLink_backend [OF assms(1)] show ?thesis by simp
qed

text \<open>
  Claim C6. For a short id that no cache tier and not the backend holds, \<open>getTargetUrl\<close>
  returns absence, leaves every cache tier (and the backend) as it was and writes to no
  cache. If the link is created after that, by the backend's \<open>createShortLink\<close> as in the
  test, or by the manager's when it returns this short id, the next lookup returns the
  link's target URL.
\<close>

theorem getTargetUrl_no_negative_caching:
  assumes "\<forall>c\<in>set (caches w). c shortId = None" and "backend w shortId = None"
  shows "fst (getTargetUrl shortId w) = None \<and>
         caches (snd (getTargetUrl shortId w)) = caches w \<and>
         backend (snd (getTargetUrl shortId w)) = backend w \<and>
         (\<forall>j s u. CacheSet j s u \<notin> set (trace w (snd (getTargetUrl shortId w)))) \<and>
         fst (backend_createShortLink shortId url (snd (getTargetUrl shortId w))) = Inr () \<and>
         fst (getTargetUrl shortId
               (snd (backend_createShortLink shortId url (snd (getTargetUrl shortId w))))) = Some url \<and>
         (fst (createShortLink url (snd (getTargetUrl shortId w))) = Inr shortId \<longrightarrow>
          fst (getTargetUrl shortId
                (snd (createShortLink url (snd (getTargetUrl shortId w))))) = Some url)"
proof -
  let ?w1 = "snd (getTargetUrl shortId w)"
  have f: "\<forall>c\<in>set (caches w). falsy (c shortId)" using assms(1) by auto
  have r: "fst (getTargetUrl shortId w) = None"
    using getTargetUrl_miss(1) [OF f] assms(2) by simp
  have s: "?w1 = w\<lparr>log := log w @ concat (map (asked shortId) [0..<length (caches w)]) @
                      [BackendGetTargetUrl shortId]\<rparr>"
    using getTargetUrl_miss(2) [OF f] assms(2) by simp
  have t: "trace w ?w1 = concat (map (asked shortId) [0..<length (caches w)]) @
                      [BackendGetTargetUrl shortId]"
    by (rule trace_append) (simp add: s)
  have n: "\<forall>j s u. CacheSet j s u \<notin> set (trace w ?w1)"
    unfolding t by (auto simp: asked_def)
  have c1: "caches ?w1 = caches w" and b1: "backend ?w1 = backend w" by (simp_all add: s)
  let ?w2 = "snd (backend_createShortLink shortId url ?w1)"
  have k: "fst (backend_createShortLink shortId url ?w1) = Inr ()"
    using assms(2) b1 by (simp add: backend_createShortLink_def emit_def Let_def)
  have "\<forall>c\<in>set (caches ?w2). falsy (c shortId)"
    using f c1 assms(2) b1 by (simp add: backend_createShortLink_def emit_def Let_def)
  from getTargetUrl_miss(1) [OF this]
  have g: "fst (getTargetUrl shortId ?w2) = Some url"
    using assms(2) b1 by (simp add: backend_createShortLink_def emit_def Let_def)
  have m: "fst (createShortLink url ?w1) = Inr shortId \<longrightarrow>
          fst (getTargetUrl shortId (snd (createShortLink url ?w1))) = Some url"
    using roundtrip_without_stale_cache [of url ?w1 shortId] f c1 by simp
  from r c1 b1 n k g m show ?thesis by blast
qed

theorem getTargetUrl_no_negative_caching_witness:
  "(let w = \<lparr>backend = Map.empty, caches = [Map.empty], shortIdLength = 3, random = rng0,
             clock = 0, log = []\<rparr>;
        w1 = snd (getTargetUrl ''012'' w)
    in list_all (\<lambda>c. c ''012'' = None) (caches w) \<and>
       backend w ''012'' = None \<and>
       fst (getTargetUrl ''012'' w) = None \<and>
       caches w1 = caches w \<and>
       fst (getTargetUrl ''012''
             (snd (backend_createShortLink ''012'' ''https://example.com/test'' w1))) =
         Some ''https://example.com/test'' \<and>
       fst (createShortLink ''https://example.com/test'' w1) = Inr ''012'' \<and>
       fst (getTargetUrl ''012'' (snd (createShortLink ''https://example.com/test'' w1))) =
         Some ''https://example.com/test'')"
proof -
  let ?w = "\<lparr>backend = Map.empty, caches = [Map.empty], shortIdLength = 3, random = rng0,
             clock = 0, log = []\<rparr>"
  let ?w1 = "snd (getTargetUrl ''012'' ?w)"
  have h1: "\<forall>c\<in>set (caches ?w). c ''012'' = None" and h2: "backend ?w ''012'' = None"
    by simp_all
  note t = getTargetUrl_no_negative_caching [OF h1 h2, of "''https://example.com/test''"]
  have w1: "shortIdLength ?w1 = 3" "random ?w1 = rng0" "backend ?w1 = Map.empty"
    by (simp_all add: getTargetUrl_def backend_getTargetUrl_def emit_def)
  have c: "candidates ?w1 = ''012'' # tl (candidates ?w1)"
    by (simp add: candidates_def w1 candidates3)
  have b: "backend ?w1 ''012'' = None" by (simp add: w1)
  have h3: "fst (createShortLink ''https://example.com/test'' ?w1) = Inr ''012''"
    using createShortLink_first_free [OF c b, of "''https://example.com/test''"] by simp
  from t h3 show ?thesis by (simp add: Let_def)
qed

end
